theory Spec2Isabelle
  imports Main "HOL-Library.Word"
begin

section \<open>The data model of \<^verbatim>\<open>rhid_win.c\<close>\<close>

text \<open>
  The Windows back end of the HID library keeps, per device, two descriptor arrays built at
  enumeration time and three state buffers filled while the device is open. Out-of-range
  array accesses are undefined behaviour in C: every function below that indexes an array
  returns \<open>None\<close> for such an access, so \<open>None\<close> always reads "the C program has left
  defined behaviour". Status codes of the C functions (\<open>0\<close>, \<open>1\<close>, \<open>-1\<close>) are ordinary
  results.

  The header \<^verbatim>\<open>rhid.h\<close> is not part of the sources. What it declares and the code uses
  is taken as a parameter: the two maxima and the lengths of the two descriptor arrays
  (record \<open>rhid_limits\<close>). The counts \<open>button_count\<close>, \<open>value_count\<close> and \<open>report_size\<close>
  are never negative in the code (they are copied from unsigned driver fields) and are
  natural numbers here; the \<open>int\<close> arguments of the public functions stay integers.
\<close>

type_synonym u8 = "8 word"
type_synonym u16 = "16 word"
type_synonym u32 = "32 word"
type_synonym os_handle = nat

record rhid_button_desc =
  bd_report_id :: u8
  bd_page :: u16
  bd_usage :: u16
  bd_index :: nat

record rhid_value_desc =
  vd_report_id :: u8
  vd_page :: u16
  vd_usage :: u16
  vd_logical_min :: int
  vd_logical_max :: int
  vd_index :: nat

text \<open>
  \<open>handle = None\<close> is the \<^verbatim>\<open>NULL\<close> handle. \<open>is_reading\<close> is \<^verbatim>\<open>native->is_reading\<close>.
  The field \<^verbatim>\<open>values\<close> of the C struct is \<open>values'\<close> here.
\<close>

record rhid_device =
  path :: string
  handle :: "os_handle option"
  vendor_id :: u16
  product_id :: u16
  version :: u16
  manufacturer_name :: string
  product_name :: string
  cap_button_count :: nat
  cap_value_count :: nat
  button_descriptors :: "rhid_button_desc list"
  value_descriptors :: "rhid_value_desc list"
  usage_page :: u16
  usage :: u16
  button_count :: nat
  value_count :: nat
  report_size :: nat
  report :: "u8 list"
  buttons :: "u8 list"
  values' :: "u32 list"
  is_reading :: bool
  is_open :: bool

record rhid_limits =
  RHID_MAX_BUTTON_CAPS :: nat
  RHID_MAX_VALUE_CAPS :: nat
  button_descriptors_len :: nat
  value_descriptors_len :: nat

definition zero_button_desc :: rhid_button_desc where
  "zero_button_desc = \<lparr>bd_report_id = 0, bd_page = 0, bd_usage = 0, bd_index = 0\<rparr>"

definition zero_value_desc :: rhid_value_desc where
  "zero_value_desc =
     \<lparr>vd_report_id = 0, vd_page = 0, vd_usage = 0, vd_logical_min = 0, vd_logical_max = 0,
      vd_index = 0\<rparr>"

text \<open>\<^verbatim>\<open>memset(&devices[i], 0, sizeof(rhid_device_t))\<close>: every field zero, every pointer \<^verbatim>\<open>NULL\<close>.\<close>

definition zero_device :: "rhid_limits \<Rightarrow> rhid_device" where
  "zero_device L =
     \<lparr>path = [], handle = None, vendor_id = 0, product_id = 0, version = 0,
      manufacturer_name = [], product_name = [], cap_button_count = 0, cap_value_count = 0,
      button_descriptors = replicate (button_descriptors_len L) zero_button_desc,
      value_descriptors = replicate (value_descriptors_len L) zero_value_desc,
      usage_page = 0, usage = 0, button_count = 0, value_count = 0, report_size = 0,
      report = [], buttons = [], values' = [], is_reading = False, is_open = False\<rparr>"

section \<open>What the operating system and the HID driver answer\<close>

text \<open>
  The capability structures of \<^verbatim>\<open>hidpi.h\<close>. \<^verbatim>\<open>Range\<close> and \<^verbatim>\<open>NotRange\<close> are the two members
  of a union selected by \<^verbatim>\<open>IsRange\<close>: \<open>Range UsageMin UsageMax\<close> and \<open>NotRange Usage\<close>.
\<close>

datatype usage_spec = Range u16 u16 | NotRange u16

record hidp_button_caps =
  bc_UsagePage :: u16
  bc_ReportID :: u8
  bc_usage :: usage_spec

record hidp_value_caps =
  vc_UsagePage :: u16
  vc_ReportID :: u8
  vc_usage :: usage_spec
  vc_LogicalMin :: int
  vc_LogicalMax :: int

record hidp_caps =
  caps_UsagePage :: u16
  caps_Usage :: u16
  InputReportByteLength :: nat
  NumberInputButtonCaps :: nat
  NumberInputValueCaps :: nat

text \<open>
  One entry of the device-interface list, with the answer of every call
  \<^verbatim>\<open>rhid_get_devices\<close> makes for it: \<open>None\<close> or \<open>False\<close> is the call's failure.
  \<open>os_open_share_rw\<close> and \<open>os_open_share_r\<close> are the two \<^verbatim>\<open>CreateFileA\<close> attempts.
\<close>

record hid_interface =
  os_enum_ok :: bool
  os_detail_size_ok :: bool
  os_detail_ok :: bool
  os_DevicePath :: string
  os_open_share_rw :: "os_handle option"
  os_open_share_r :: "os_handle option"
  os_attributes :: "(u16 \<times> u16 \<times> u16) option"
  os_manufacturer :: "string option"
  os_product :: "string option"
  os_preparsed_ok :: bool
  os_caps :: "hidp_caps option"
  os_button_caps :: "hidp_button_caps list option"
  os_value_caps :: "hidp_value_caps list option"
  os_MaxUsageListLength :: nat

text \<open>
  The process-wide \<^verbatim>\<open>_rhid_win_gcache\<close> (its two capability buffers, each \<^verbatim>\<open>NULL\<close> or of
  a size counted in table entries) together with the handles the process holds open.
\<close>

record win_state =
  button_caps_count :: nat
  button_caps :: "nat option"
  value_caps_count :: nat
  value_caps :: "nat option"
  open_handles :: "os_handle list"

definition buffer_size :: "nat option \<Rightarrow> nat" where
  "buffer_size b = (case b of None \<Rightarrow> 0 | Some n \<Rightarrow> n)"

definition CloseHandle :: "os_handle \<Rightarrow> win_state \<Rightarrow> win_state" where
  "CloseHandle h st = st\<lparr>open_handles := remove1 h (open_handles st)\<rparr>"

section \<open>\<^verbatim>\<open>rhid_get_devices\<close>: the descriptor builder\<close>

text \<open>
  Lines 384 to 398: the loop \<^verbatim>\<open>for(uint16_t u = UsageMin; u <= UsageMax; u++)\<close>. The counter
  is a 16-bit word and wraps; the loop ends when \<open>u\<close> passes \<open>UsageMax\<close> or when the write
  leaves the descriptor array.
\<close>

function range_loop ::
  "u16 \<Rightarrow> u16 \<Rightarrow> u16 \<Rightarrow> nat \<Rightarrow> rhid_button_desc list \<Rightarrow> (nat \<times> rhid_button_desc list) option"
where
  "range_loop pg umax u btn_desc_idx ds =
     (if u \<le> umax then
        (if btn_desc_idx < length ds then
           range_loop pg umax (u + 1) (btn_desc_idx + 1)
             (ds[btn_desc_idx :=
                   (ds ! btn_desc_idx)\<lparr>bd_page := pg, bd_usage := u, bd_index := btn_desc_idx\<rparr>])
         else None)
      else Some (btn_desc_idx, ds))"
  by pat_completeness auto
termination
  by (relation "measure (\<lambda>(pg, umax, u, idx, ds). length ds - idx)") auto

declare range_loop.simps [simp del]

text \<open>
  Lines 378 to 412: the loop over the raw button capabilities. It returns the final
  \<^verbatim>\<open>btn_desc_idx\<close> and the descriptor array.
\<close>

fun build_button_descriptors ::
  "hidp_button_caps list \<Rightarrow> nat \<Rightarrow> rhid_button_desc list \<Rightarrow> (nat \<times> rhid_button_desc list) option"
where
  "build_button_descriptors [] btn_desc_idx ds = Some (btn_desc_idx, ds)"
| "build_button_descriptors (c # cs) btn_desc_idx ds =
     (if btn_desc_idx < length ds then
        (let ds1 = ds[btn_desc_idx := (ds ! btn_desc_idx)\<lparr>bd_report_id := bc_ReportID c\<rparr>] in
         case bc_usage c of
           Range umin umax \<Rightarrow>
             (case range_loop (bc_UsagePage c) umax umin btn_desc_idx ds1 of
                None \<Rightarrow> None
              | Some (idx, ds2) \<Rightarrow> build_button_descriptors cs (idx + 1) ds2)
         | NotRange u \<Rightarrow>
             build_button_descriptors cs (btn_desc_idx + 1)
               (ds1[btn_desc_idx :=
                      (ds1 ! btn_desc_idx)\<lparr>bd_page := bc_UsagePage c, bd_usage := u,
                                            bd_index := btn_desc_idx\<rparr>]))
      else None)"

text \<open>Lines 460 to 482: value descriptors, one per raw entry, at the entry's own position.\<close>

fun build_value_descriptors ::
  "hidp_value_caps list \<Rightarrow> nat \<Rightarrow> rhid_value_desc list \<Rightarrow> rhid_value_desc list option"
where
  "build_value_descriptors [] k ds = Some ds"
| "build_value_descriptors (c # cs) k ds =
     (if k < length ds then
        build_value_descriptors cs (k + 1)
          (ds[k := (ds ! k)\<lparr>vd_report_id := vc_ReportID c, vd_page := vc_UsagePage c,
                           vd_usage := (case vc_usage c of Range umin umax \<Rightarrow> umax
                                                         | NotRange u \<Rightarrow> u),
                           vd_logical_min := vc_LogicalMin c, vd_logical_max := vc_LogicalMax c,
                           vd_index := k\<rparr>])
      else None)"

section \<open>\<^verbatim>\<open>rhid_get_devices\<close>: one device\<close>

text \<open>
  How one iteration of the device loop ends: \<^verbatim>\<open>return -1\<close>, \<^verbatim>\<open>break\<close>, \<^verbatim>\<open>continue\<close> after a
  failure scoped to the device (named after the diagnostic the code prints), or the end of
  the loop body.
\<close>

datatype skip_reason =
  HandleOpenError | PreparsedDataError | CapabilityQueryError | TooManyCapabilities

datatype ctl = Return int | Break | Continue skip_reason | Completed

text \<open>
  Lines 243 to 250: the path is copied and a trailing \<^verbatim>\<open>kbd\<close> is cut off together with
  the character before it. A path shorter than three characters is read before its start.
\<close>

definition copy_device_path :: "string \<Rightarrow> string option" where
  "copy_device_path p =
     (let n = length p in
      if n < 3 then None
      else if drop (n - 3) p = ''kbd'' then (if n < 4 then None else Some (take (n - 4) p))
      else Some p)"

text \<open>Lines 339 to 355 and 419 to 435: the scratch buffer is regrown when it is too small.\<close>

definition grow_button_caps :: "win_state \<Rightarrow> nat \<Rightarrow> win_state" where
  "grow_button_caps st n =
     (if button_caps_count st < n then st\<lparr>button_caps := Some n, button_caps_count := n\<rparr>
      else st)"

definition grow_value_caps :: "win_state \<Rightarrow> nat \<Rightarrow> win_state" where
  "grow_value_caps st n =
     (if value_caps_count st < n then st\<lparr>value_caps := Some n, value_caps_count := n\<rparr>
      else st)"

text \<open>
  Lines 337 to 415. The result's first component says whether the loop body goes on
  (\<open>True\<close>) or the device was abandoned with \<^verbatim>\<open>continue\<close> (\<open>False\<close>). The driver fills
  \<^verbatim>\<open>NumberInputButtonCaps\<close> entries of the scratch buffer; a shorter table would make the
  loop read entries nobody wrote.
\<close>

definition button_caps_stage ::
  "rhid_limits \<Rightarrow> hid_interface \<Rightarrow> hidp_caps \<Rightarrow> os_handle \<Rightarrow> win_state \<Rightarrow> rhid_device
     \<Rightarrow> (bool \<times> win_state \<times> rhid_device) option"
where
  "button_caps_stage L f dev_caps h st d =
     (if NumberInputButtonCaps dev_caps > 0 then
        (let st1 = grow_button_caps st (NumberInputButtonCaps dev_caps);
             d1 = d\<lparr>cap_button_count := NumberInputButtonCaps dev_caps\<rparr> in
         case os_button_caps f of
           None \<Rightarrow> Some (True, st1, d1)
         | Some tbl \<Rightarrow>
             if NumberInputButtonCaps dev_caps > RHID_MAX_BUTTON_CAPS L then
               Some (False, CloseHandle h st1, d1\<lparr>handle := None\<rparr>)
             else if length tbl < NumberInputButtonCaps dev_caps then None
             else
               (case build_button_descriptors (take (NumberInputButtonCaps dev_caps) tbl) 0
                       (button_descriptors d1) of
                  None \<Rightarrow> None
                | Some (idx, ds) \<Rightarrow> Some (True, st1, d1\<lparr>button_descriptors := ds\<rparr>)))
      else Some (True, st, d))"

text \<open>Lines 417 to 485.\<close>

definition value_caps_stage ::
  "rhid_limits \<Rightarrow> hid_interface \<Rightarrow> hidp_caps \<Rightarrow> os_handle \<Rightarrow> win_state \<Rightarrow> rhid_device
     \<Rightarrow> (bool \<times> win_state \<times> rhid_device) option"
where
  "value_caps_stage L f dev_caps h st d =
     (if NumberInputValueCaps dev_caps > 0 then
        (let st1 = grow_value_caps st (NumberInputValueCaps dev_caps);
             d1 = d\<lparr>cap_value_count := NumberInputValueCaps dev_caps\<rparr> in
         case os_value_caps f of
           None \<Rightarrow> Some (True, st1, d1)
         | Some tbl \<Rightarrow>
             if NumberInputValueCaps dev_caps > RHID_MAX_VALUE_CAPS L then
               Some (False, CloseHandle h st1, d1\<lparr>handle := None\<rparr>)
             else if length tbl < NumberInputValueCaps dev_caps then None
             else
               (case build_value_descriptors (take (NumberInputValueCaps dev_caps) tbl) 0
                       (value_descriptors d1) of
                  None \<Rightarrow> None
                | Some ds \<Rightarrow> Some (True, st1, d1\<lparr>value_descriptors := ds\<rparr>)))
      else Some (True, st, d))"

text \<open>
  Lines 268 to 306: vendor id, product id, version and the two names, each left zero when
  its query fails.
\<close>

definition read_identity :: "hid_interface \<Rightarrow> rhid_device \<Rightarrow> rhid_device" where
  "read_identity f d =
     (let d1 = (case os_attributes f of
                  Some (vid, pid, ver) \<Rightarrow> d\<lparr>vendor_id := vid, product_id := pid, version := ver\<rparr>
                | None \<Rightarrow> d);
          d2 = (case os_manufacturer f of Some s \<Rightarrow> d1\<lparr>manufacturer_name := s\<rparr> | None \<Rightarrow> d1)
      in case os_product f of Some s \<Rightarrow> d2\<lparr>product_name := s\<rparr> | None \<Rightarrow> d2)"

text \<open>Lines 268 to 505: the loop body once the device handle \<open>h\<close> is open.\<close>

definition probe_device ::
  "rhid_limits \<Rightarrow> hid_interface \<Rightarrow> os_handle \<Rightarrow> win_state \<Rightarrow> rhid_device
     \<Rightarrow> (ctl \<times> win_state \<times> rhid_device) option"
where
  "probe_device L f h st d =
     (let d3 = read_identity f d in
      if \<not> os_preparsed_ok f then
        Some (Continue PreparsedDataError, CloseHandle h st, d3\<lparr>handle := None\<rparr>)
      else
        (case os_caps f of
           None \<Rightarrow> Some (Continue CapabilityQueryError, CloseHandle h st, d3\<lparr>handle := None\<rparr>)
         | Some dev_caps \<Rightarrow>
             (case button_caps_stage L f dev_caps h st d3 of
                None \<Rightarrow> None
              | Some (go_on, st4, d4) \<Rightarrow>
                  if \<not> go_on then Some (Continue TooManyCapabilities, st4, d4)
                  else
                    (case value_caps_stage L f dev_caps h st4 d4 of
                       None \<Rightarrow> None
                     | Some (go_on', st5, d5) \<Rightarrow>
                         if \<not> go_on' then Some (Continue TooManyCapabilities, st5, d5)
                         else
                           Some (Completed, CloseHandle h st5,
                                 d5\<lparr>usage_page := caps_UsagePage dev_caps,
                                    usage := caps_Usage dev_caps,
                                    button_count := os_MaxUsageListLength f,
                                    value_count := NumberInputValueCaps dev_caps,
                                    report_size := InputReportByteLength dev_caps,
                                    handle := None\<rparr>)))))"

text \<open>
  Lines 197 to 266, then \<open>probe_device\<close>. The interface is \<open>None\<close> when the index is past
  the end of the interface list (\<^verbatim>\<open>ERROR_NO_MORE_ITEMS\<close>).
\<close>

definition enum_device ::
  "rhid_limits \<Rightarrow> hid_interface option \<Rightarrow> win_state \<Rightarrow> (ctl \<times> win_state \<times> rhid_device) option"
where
  "enum_device L ifc st =
     (let d0 = zero_device L in
      case ifc of
        None \<Rightarrow> Some (Break, st, d0)
      | Some f \<Rightarrow>
          if \<not> os_enum_ok f then Some (Return (- 1), st, d0)
          else if \<not> os_detail_size_ok f then Some (Return (- 1), st, d0)
          else if \<not> os_detail_ok f then Some (Return (- 1), st, d0)
          else
            (case copy_device_path (os_DevicePath f) of
               None \<Rightarrow> None
             | Some p \<Rightarrow>
                 (case (case os_open_share_rw f of Some h \<Rightarrow> Some h | None \<Rightarrow> os_open_share_r f) of
                    None \<Rightarrow> Some (Continue HandleOpenError, st, d0\<lparr>path := p\<rparr>)
                  | Some h \<Rightarrow>
                      probe_device L f h (st\<lparr>open_handles := h # open_handles st\<rparr>)
                        (d0\<lparr>path := p, handle := Some h\<rparr>))))"

section \<open>\<^verbatim>\<open>rhid_get_devices\<close>: the device loop\<close>

text \<open>
  Lines 196 to 511: \<^verbatim>\<open>for(int i = 0; i < count; i++)\<close> over the caller's array \<open>devices\<close>.
\<close>

function get_devices_loop ::
  "rhid_limits \<Rightarrow> hid_interface list \<Rightarrow> int \<Rightarrow> nat \<Rightarrow> win_state \<Rightarrow> rhid_device list
     \<Rightarrow> (int \<times> win_state \<times> rhid_device list) option"
where
  "get_devices_loop L os count i st devices =
     (if int i < count then
        (if i < length devices then
           (case enum_device L (if i < length os then Some (os ! i) else None) st of
              None \<Rightarrow> None
            | Some (c, st1, d) \<Rightarrow>
                (case c of
                   Return r \<Rightarrow> Some (r, st1, devices[i := d])
                 | Break \<Rightarrow> Some (0, st1, devices[i := d])
                 | Continue reason \<Rightarrow> get_devices_loop L os count (i + 1) st1 (devices[i := d])
                 | Completed \<Rightarrow> get_devices_loop L os count (i + 1) st1 (devices[i := d])))
         else None)
      else Some (0, st, devices))"
  by pat_completeness auto
termination
  by (relation "measure (\<lambda>(L, os, count, i, st, devices). nat (count - int i))") auto

declare get_devices_loop.simps [simp del]

text \<open>
  \<open>class_devs\<close> is the answer of \<^verbatim>\<open>SetupDiGetClassDevsA\<close>: the interface list, or \<open>None\<close>
  for \<^verbatim>\<open>INVALID_HANDLE_VALUE\<close>.
\<close>

definition rhid_get_devices ::
  "rhid_limits \<Rightarrow> hid_interface list option \<Rightarrow> win_state \<Rightarrow> rhid_device list \<Rightarrow> int
     \<Rightarrow> (int \<times> win_state \<times> rhid_device list) option"
where
  "rhid_get_devices L class_devs st devices count =
     (case class_devs of
        None \<Rightarrow> Some (- 1, st, devices)
      | Some os \<Rightarrow> get_devices_loop L os count 0 st devices)"

section \<open>\<^verbatim>\<open>rhid_select_devices\<close>\<close>

text \<open>
  Lines 528 to 548. \<open>selected\<close> is the caller's pointer array with its real length; the
  pointer \<^verbatim>\<open>&devices[i]\<close> is the index \<open>i\<close>.
\<close>

type_synonym rhid_select_func = "u16 \<Rightarrow> u16 \<Rightarrow> int"

function select_loop ::
  "rhid_device list \<Rightarrow> int \<Rightarrow> int \<Rightarrow> rhid_select_func \<Rightarrow> nat \<Rightarrow> nat \<Rightarrow> nat option list
     \<Rightarrow> (int \<times> nat option list) option"
where
  "select_loop devices count selected_count select_func i select_index selected =
     (if int i < count then
        (if i < length devices then
           (if select_func (usage_page (devices ! i)) (usage (devices ! i)) = 1 then
              (if int select_index > selected_count then Some (- 1, selected)
               else if select_index < length selected then
                 select_loop devices count selected_count select_func (i + 1) (select_index + 1)
                   (selected[select_index := Some i])
               else None)
            else select_loop devices count selected_count select_func (i + 1) select_index selected)
         else None)
      else Some (0, selected))"
  by pat_completeness auto
termination
  by (relation "measure (\<lambda>(devices, count, sc, sf, i, si, sel). nat (count - int i))") auto

declare select_loop.simps [simp del]

definition rhid_select_devices ::
  "rhid_device list \<Rightarrow> int \<Rightarrow> nat option list \<Rightarrow> int \<Rightarrow> rhid_select_func
     \<Rightarrow> (int \<times> nat option list) option"
where
  "rhid_select_devices devices count selected selected_count select_func =
     select_loop devices count selected_count select_func 0 0 selected"

section \<open>\<^verbatim>\<open>rhid_read_report\<close>\<close>

text \<open>
  Lines 550 to 585. \<open>overlapped_bytes\<close> is what \<^verbatim>\<open>GetOverlappedResult\<close> stores in
  \<^verbatim>\<open>bytes_read\<close>, \<open>rf\<close> is the outcome of \<^verbatim>\<open>ReadFile\<close>: it returned \<^verbatim>\<open>TRUE\<close>, it
  returned \<^verbatim>\<open>FALSE\<close> with \<^verbatim>\<open>ERROR_IO_PENDING\<close>, or it failed otherwise. The third
  component of the result lists the system calls made, in order. The bytes the driver
  stores in the report buffer are outside the model; only the write to \<^verbatim>\<open>report[0]\<close> is
  tracked.
\<close>

datatype readfile_result = ReadCompleted | ReadQueued | ReadFailed

datatype io_call = GetOverlappedResult | ReadFile nat

definition rhid_read_report ::
  "rhid_device \<Rightarrow> u8 \<Rightarrow> nat \<Rightarrow> readfile_result \<Rightarrow> (int \<times> rhid_device \<times> io_call list) option"
where
  "rhid_read_report device report_id overlapped_bytes rf =
     (if is_reading device \<and> \<not> overlapped_bytes \<ge> report_size device then
        Some (0, device, [GetOverlappedResult])
      else
        (let calls = (if is_reading device then [GetOverlappedResult] else []);
             d1 = (if is_reading device then device\<lparr>is_reading := False\<rparr> else device) in
         if report d1 = [] then None
         else
           (let d2 = d1\<lparr>report := (report d1)[0 := report_id]\<rparr>;
                calls2 = calls @ [ReadFile (report_size d2)] in
            if rf = ReadFailed then Some (0, d2, calls2)
            else if \<not> is_reading d2 then Some (1, d2\<lparr>is_reading := True\<rparr>, calls2)
            else Some (0, d2, calls2))))"

section \<open>\<^verbatim>\<open>rhid_report\<close>: decoding a report\<close>

text \<open>A \<^verbatim>\<open>USAGE_AND_PAGE\<close> is the pair (usage page, usage).\<close>

type_synonym usage_and_page = "u16 \<times> u16"

definition memset0 :: "u8 list \<Rightarrow> nat \<Rightarrow> u8 list option" where
  "memset0 bs n = (if n \<le> length bs then Some (replicate n 0 @ drop n bs) else None)"

text \<open>Lines 702 to 710: the scan of the first \<open>button_count\<close> descriptors for one active usage.\<close>

function mark_button ::
  "rhid_button_desc list \<Rightarrow> nat \<Rightarrow> usage_and_page \<Rightarrow> nat \<Rightarrow> u8 list \<Rightarrow> u8 list option"
where
  "mark_button ds bcount up i bs =
     (if i < bcount then
        (if i < length ds then
           (if bd_page (ds ! i) = fst up \<and> bd_usage (ds ! i) = snd up then
              (if bd_index (ds ! i) < length bs then Some (bs[bd_index (ds ! i) := 1]) else None)
            else mark_button ds bcount up (i + 1) bs)
         else None)
      else Some bs)"
  by pat_completeness auto
termination
  by (relation "measure (\<lambda>(ds, bcount, up, i, bs). bcount - i)") auto

declare mark_button.simps [simp del]

text \<open>Lines 701 to 711: the loop over the active usages.\<close>

fun mark_buttons ::
  "rhid_button_desc list \<Rightarrow> nat \<Rightarrow> usage_and_page list \<Rightarrow> u8 list \<Rightarrow> u8 list option"
where
  "mark_buttons ds bcount [] bs = Some bs"
| "mark_buttons ds bcount (up # ups) bs =
     (case mark_button ds bcount up 0 bs of
        None \<Rightarrow> None
      | Some bs1 \<Rightarrow> mark_buttons ds bcount ups bs1)"

text \<open>
  Lines 757 to 767. \<open>q page usage\<close> is the answer of \<^verbatim>\<open>HidP_GetUsageValue\<close> on the current
  report: the value, or \<open>None\<close> for a status other than success, in which case the driver
  stores nothing.
\<close>

function parse_values ::
  "rhid_value_desc list \<Rightarrow> nat \<Rightarrow> (u16 \<Rightarrow> u16 \<Rightarrow> u32 option) \<Rightarrow> nat \<Rightarrow> u32 list \<Rightarrow> u32 list option"
where
  "parse_values vds vcount q i vs =
     (if i < vcount then
        (if i < length vds \<and> i < length vs then
           parse_values vds vcount q (i + 1)
             (case q (vd_page (vds ! i)) (vd_usage (vds ! i)) of
                Some v \<Rightarrow> vs[i := v]
              | None \<Rightarrow> vs)
         else None)
      else Some vs)"
  by pat_completeness auto
termination
  by (relation "measure (\<lambda>(vds, vcount, q, i, vs). vcount - i)") auto

declare parse_values.simps [simp del]

text \<open>
  Lines 686 to 770 for an available report. \<open>usages\<close> is the answer of
  \<^verbatim>\<open>HidP_GetUsagesEx\<close> on the current report: the active usages (at most
  \<^verbatim>\<open>MAX_BUTTON_COUNT\<close> of them, the length of the local array the driver fills), or \<open>None\<close>
  for a status other than success.
\<close>

definition parse_report ::
  "rhid_device \<Rightarrow> usage_and_page list option \<Rightarrow> (u16 \<Rightarrow> u16 \<Rightarrow> u32 option)
     \<Rightarrow> (int \<times> rhid_device) option"
where
  "parse_report device usages q =
     (case usages of
        None \<Rightarrow> Some (- 1, device)
      | Some usages_pages \<Rightarrow>
          (case memset0 (buttons device) (button_count device) of
             None \<Rightarrow> None
           | Some bs0 \<Rightarrow>
               (case mark_buttons (button_descriptors device) (button_count device)
                       usages_pages bs0 of
                  None \<Rightarrow> None
                | Some bs \<Rightarrow>
                    (case parse_values (value_descriptors device) (value_count device) q 0
                            (values' device) of
                       None \<Rightarrow> None
                     | Some vs \<Rightarrow> Some (0, device\<lparr>buttons := bs, values' := vs\<rparr>)))))"

text \<open>Lines 676 to 770.\<close>

definition rhid_report ::
  "rhid_device \<Rightarrow> u8 \<Rightarrow> nat \<Rightarrow> readfile_result \<Rightarrow> usage_and_page list option
     \<Rightarrow> (u16 \<Rightarrow> u16 \<Rightarrow> u32 option) \<Rightarrow> (int \<times> rhid_device \<times> io_call list) option"
where
  "rhid_report device report_id overlapped_bytes rf usages q =
     (if handle device = None \<or> \<not> is_open device then Some (- 1, device, [])
      else
        (case rhid_read_report device report_id overlapped_bytes rf of
           None \<Rightarrow> None
         | Some (report_avaliable, d1, calls) \<Rightarrow>
             if report_avaliable \<noteq> 0 then
               (case parse_report d1 usages q of
                  None \<Rightarrow> None
                | Some (status, d2) \<Rightarrow> Some (status, d2, calls))
             else Some (0, d1, calls)))"

section \<open>\<^verbatim>\<open>rhid_get_buttons_state\<close> and \<^verbatim>\<open>rhid_get_values_state\<close>\<close>

text \<open>\<^verbatim>\<open>memcpy\<close> of \<open>n\<close> elements; both arrays must hold that many.\<close>

definition memcpy :: "'a list \<Rightarrow> 'a list \<Rightarrow> nat \<Rightarrow> 'a list option" where
  "memcpy dst src n =
     (if n \<le> length dst \<and> n \<le> length src then Some (take n src @ drop n dst) else None)"

text \<open>Lines 772 to 789. \<open>out\<close> is the caller's buffer.\<close>

definition rhid_get_buttons_state :: "rhid_device \<Rightarrow> u8 list \<Rightarrow> int \<Rightarrow> (int \<times> u8 list) option" where
  "rhid_get_buttons_state device out size' =
     (if size' < int (button_count device) then Some (- 1, out)
      else
        (case memcpy out (buttons device) (button_count device) of
           None \<Rightarrow> None
         | Some out' \<Rightarrow> Some (0, out')))"

definition rhid_get_values_state :: "rhid_device \<Rightarrow> u32 list \<Rightarrow> int \<Rightarrow> (int \<times> u32 list) option" where
  "rhid_get_values_state device out size' =
     (if size' < int (value_count device) then Some (- 1, out)
      else
        (case memcpy out (values' device) (value_count device) of
           None \<Rightarrow> None
         | Some out' \<Rightarrow> Some (0, out')))"

section \<open>Auxiliary notions for the proofs\<close>

text \<open>
  \<open>set_ones S bs\<close> is \<open>bs\<close> with the slots in \<open>S\<close> set to 1. A device is \<open>decodable\<close>
  when the arrays the decoder indexes are long enough for the device's counts, so that no
  access of \<open>parse_report\<close> leaves an array. (\<^verbatim>\<open>rhid_open\<close> allocates \<open>button_count\<close>
  button bytes and \<open>value_count\<close> value words; the descriptor arrays have the fixed lengths
  of \<^verbatim>\<open>rhid.h\<close>.)
\<close>

definition set_ones :: "nat set \<Rightarrow> u8 list \<Rightarrow> u8 list" where
  "set_ones S bs = map (\<lambda>k. if k \<in> S then 1 else bs ! k) [0..<length bs]"

definition decodable :: "rhid_device \<Rightarrow> bool" where
  "decodable d \<longleftrightarrow>
     button_count d \<le> length (buttons d) \<and>
     button_count d \<le> length (button_descriptors d) \<and>
     list_all (\<lambda>b. bd_index b < length (buttons d))
       (take (button_count d) (button_descriptors d)) \<and>
     value_count d \<le> length (value_descriptors d) \<and>
     value_count d \<le> length (values' d)"

text \<open>
  Notions about one entry of the interface list, read off the driver's answers.
  \<open>enum_level_ok\<close>: the three set-up calls that make \<^verbatim>\<open>rhid_get_devices\<close> return -1
  succeed. \<open>caps_header\<close>: the capability header the loop body obtains, if it gets that
  far. \<open>rejected_for_buttons\<close> and \<open>rejected_for_values\<close>: the two guards against the
  maxima (on the raw capability counts) fire. \<open>abandoning_failure\<close>: the failure for which
  the loop body gives the device up, if there is one: no handle can be opened, the
  preparsed data or the capability header cannot be read, or one of the two guards fires.
  A failing capability table query is not among them. \<open>abandoned\<close>: the record of a device
  that was given up has a \<^verbatim>\<open>NULL\<close> handle and zero usage, counts, report size and state
  buffers. \<open>cache_consistent\<close>: each capability buffer has the size its counter says.
\<close>

definition enum_level_ok :: "hid_interface \<Rightarrow> bool" where
  "enum_level_ok f \<longleftrightarrow> os_enum_ok f \<and> os_detail_size_ok f \<and> os_detail_ok f"

definition cache_consistent :: "win_state \<Rightarrow> bool" where
  "cache_consistent st \<longleftrightarrow>
     buffer_size (button_caps st) = button_caps_count st \<and>
     buffer_size (value_caps st) = value_caps_count st"

definition caps_header :: "hid_interface \<Rightarrow> hidp_caps option" where
  "caps_header f =
     (if os_enum_ok f \<and> os_detail_size_ok f \<and> os_detail_ok f \<and>
         (os_open_share_rw f \<noteq> None \<or> os_open_share_r f \<noteq> None) \<and> os_preparsed_ok f
      then os_caps f else None)"

definition rejected_for_buttons :: "rhid_limits \<Rightarrow> hid_interface \<Rightarrow> hidp_caps \<Rightarrow> bool" where
  "rejected_for_buttons L f dc \<longleftrightarrow>
     NumberInputButtonCaps dc > 0 \<and> os_button_caps f \<noteq> None \<and>
     NumberInputButtonCaps dc > RHID_MAX_BUTTON_CAPS L"




section \<open>Example inputs\<close>

definition example_limits :: rhid_limits where
  "example_limits =
     \<lparr>RHID_MAX_BUTTON_CAPS = 8, RHID_MAX_VALUE_CAPS = 4, button_descriptors_len = 8,
      value_descriptors_len = 4\<rparr>"

text \<open>
  An open, idle device with four buttons (page 9, usages 1 to 4) and one value (page 1,
  usage 0x30), and the same device after a poll with report id 5.
\<close>

definition example_device :: rhid_device where
  "example_device =
     (zero_device example_limits)
       \<lparr>handle := Some 7,
        button_descriptors :=
          [\<lparr>bd_report_id = 0, bd_page = 9, bd_usage = 1, bd_index = 0\<rparr>,
           \<lparr>bd_report_id = 0, bd_page = 9, bd_usage = 2, bd_index = 1\<rparr>,
           \<lparr>bd_report_id = 0, bd_page = 9, bd_usage = 3, bd_index = 2\<rparr>,
           \<lparr>bd_report_id = 0, bd_page = 9, bd_usage = 4, bd_index = 3\<rparr>,
           zero_button_desc, zero_button_desc, zero_button_desc, zero_button_desc],
        value_descriptors :=
          [\<lparr>vd_report_id = 0, vd_page = 1, vd_usage = 0x30, vd_logical_min = 0,
            vd_logical_max = 255, vd_index = 0\<rparr>,
           zero_value_desc, zero_value_desc, zero_value_desc],
        button_count := 4, value_count := 1, report_size := 3, report := [0, 0, 0],
        buttons := [0, 0, 0, 0], values' := [0], is_open := True\<rparr>"

definition polled_device :: rhid_device where
  "polled_device = example_device\<lparr>report := [5, 0, 0], is_reading := True\<rparr>"

definition decoded_device :: rhid_device where
  "decoded_device = polled_device\<lparr>buttons := [0, 1, 0, 1], values' := [127]\<rparr>"

text \<open>A driver that decodes 127 for usage 0x30 of page 1 and fails for every other usage.\<close>

definition query_127 :: "u16 \<Rightarrow> u16 \<Rightarrow> u32 option" where
  "query_127 pg u = (if pg = 1 \<and> u = 0x30 then Some 127 else None)"

definition select_all :: rhid_select_func where
  "select_all pg u = 1"

text \<open>
  Interface-list entries: a gamepad with one ranged button capability (page 9, usages 1
  to 4) and one value capability; the same device when no handle can be opened; and a
  device with three single-usage button capabilities. \<open>locked_record\<close> and
  \<open>gamepad_record\<close> are the device records the enumeration builds for the first two.
\<close>

definition initial_state :: win_state where
  "initial_state =
     \<lparr>button_caps_count = 0, button_caps = None, value_caps_count = 0, value_caps = None,
      open_handles = []\<rparr>"

definition gamepad_interface :: hid_interface where
  "gamepad_interface =
     \<lparr>os_enum_ok = True, os_detail_size_ok = True, os_detail_ok = True,
      os_DevicePath = ''hid#pad'', os_open_share_rw = Some 3, os_open_share_r = None,
      os_attributes = Some (0x45E, 0x28E, 1), os_manufacturer = Some ''Acme'',
      os_product = Some ''Pad'', os_preparsed_ok = True,
      os_caps = Some \<lparr>caps_UsagePage = 1, caps_Usage = 5, InputReportByteLength = 3,
                       NumberInputButtonCaps = 1, NumberInputValueCaps = 1\<rparr>,
      os_button_caps = Some [\<lparr>bc_UsagePage = 9, bc_ReportID = 2, bc_usage = Range 1 4\<rparr>],
      os_value_caps = Some [\<lparr>vc_UsagePage = 1, vc_ReportID = 2, vc_usage = NotRange 0x30,
                             vc_LogicalMin = 0, vc_LogicalMax = 255\<rparr>],
      os_MaxUsageListLength = 4\<rparr>"

definition locked_interface :: hid_interface where
  "locked_interface = gamepad_interface\<lparr>os_open_share_rw := None\<rparr>"

definition crowded_interface :: hid_interface where
  "crowded_interface =
     gamepad_interface
       \<lparr>os_caps := Some \<lparr>caps_UsagePage = 1, caps_Usage = 5, InputReportByteLength = 3,
                         NumberInputButtonCaps = 3, NumberInputValueCaps = 1\<rparr>,
        os_button_caps := Some [\<lparr>bc_UsagePage = 9, bc_ReportID = 2, bc_usage = NotRange 1\<rparr>,
                                \<lparr>bc_UsagePage = 9, bc_ReportID = 2, bc_usage = NotRange 2\<rparr>,
                                \<lparr>bc_UsagePage = 9, bc_ReportID = 2, bc_usage = NotRange 3\<rparr>]\<rparr>"

definition small_limits :: rhid_limits where
  "small_limits =
     \<lparr>RHID_MAX_BUTTON_CAPS = 2, RHID_MAX_VALUE_CAPS = 2, button_descriptors_len = 2,
      value_descriptors_len = 2\<rparr>"

definition locked_record :: rhid_device where
  "locked_record = (zero_device example_limits)\<lparr>path := ''hid#pad''\<rparr>"

definition gamepad_record :: rhid_device where
  "gamepad_record =
     (zero_device example_limits)
       \<lparr>path := ''hid#pad'', vendor_id := 0x45E, product_id := 0x28E, version := 1,
        manufacturer_name := ''Acme'', product_name := ''Pad'', cap_button_count := 1,
        cap_value_count := 1,
        button_descriptors :=
          [\<lparr>bd_report_id = 2, bd_page = 9, bd_usage = 1, bd_index = 0\<rparr>,
           \<lparr>bd_report_id = 0, bd_page = 9, bd_usage = 2, bd_index = 1\<rparr>,
           \<lparr>bd_report_id = 0, bd_page = 9, bd_usage = 3, bd_index = 2\<rparr>,
           \<lparr>bd_report_id = 0, bd_page = 9, bd_usage = 4, bd_index = 3\<rparr>,
           zero_button_desc, zero_button_desc, zero_button_desc, zero_button_desc],
        value_descriptors :=
          [\<lparr>vd_report_id = 2, vd_page = 1, vd_usage = 0x30, vd_logical_min = 0,
            vd_logical_max = 255, vd_index = 0\<rparr>,
           zero_value_desc, zero_value_desc, zero_value_desc],
        usage_page := 1, usage := 5, button_count := 4, value_count := 1, report_size := 3\<rparr>"

definition grown_state :: win_state where
  "grown_state =
     \<lparr>button_caps_count = 1, button_caps = Some 1, value_caps_count = 1, value_caps = Some 1,
      open_handles = []\<rparr>"











section \<open>Lemmas about the report decoder\<close>

lemma read_report_frame:
  "rhid_read_report device rid ob rf = Some (st, d1, calls) \<Longrightarrow>
     buttons d1 = buttons device \<and> values' d1 = values' device \<and> handle d1 = handle device \<and>
     is_open d1 = is_open device \<and> button_count d1 = button_count device \<and>
     value_count d1 = value_count device \<and> button_descriptors d1 = button_descriptors device \<and>
     value_descriptors d1 = value_descriptors device \<and> report_size d1 = report_size device"
  by (auto simp: rhid_read_report_def Let_def split: if_splits)

lemma parse_values_nth:
  "parse_values vds vc q i vs = Some vs' \<Longrightarrow>
     length vs' = length vs \<and>
     (\<forall>k<length vs. vs' ! k =
        (if i \<le> k \<and> k < vc
         then (case q (vd_page (vds ! k)) (vd_usage (vds ! k)) of Some v \<Rightarrow> v | None \<Rightarrow> vs ! k)
         else vs ! k))"
proof (induction vds vc q i vs rule: parse_values.induct)
  case (1 vds vcount q i vs)
  show ?case
  proof (cases "i < vcount")
    case False
    with "1.prems" show ?thesis by (auto simp: parse_values.simps)
  next
    case True
    with "1.prems" have inb: "i < length vds \<and> i < length vs"
      by (simp add: parse_values.simps split: if_splits)
    define vs1 where "vs1 = (case q (vd_page (vds ! i)) (vd_usage (vds ! i)) of
                Some v \<Rightarrow> vs[i := v] | None \<Rightarrow> vs)"
    have len1: "length vs1 = length vs" by (simp add: vs1_def split: option.splits)
    from "1.prems" True inb have rec: "parse_values vds vcount q (i + 1) vs1 = Some vs'"
      by (subst (asm) parse_values.simps) (simp add: vs1_def)
    have ih: "length vs' = length vs1 \<and>
     (\<forall>k<length vs1. vs' ! k =
        (if i + 1 \<le> k \<and> k < vcount
         then (case q (vd_page (vds ! k)) (vd_usage (vds ! k)) of Some v \<Rightarrow> v | None \<Rightarrow> vs1 ! k)
         else vs1 ! k))"
      unfolding vs1_def by (rule "1.IH"[OF True inb rec[unfolded vs1_def]])
    show ?thesis
    proof (intro conjI allI impI)
      show "length vs' = length vs" using ih len1 by simp
    next
      fix k assume k: "k < length vs"
      show "vs' ! k = (if i \<le> k \<and> k < vcount
         then (case q (vd_page (vds ! k)) (vd_usage (vds ! k)) of Some v \<Rightarrow> v | None \<Rightarrow> vs ! k)
         else vs ! k)"
      proof (cases "k = i")
        case True
        with ih k len1 inb \<open>i < vcount\<close> show ?thesis
          by (auto simp: vs1_def split: option.splits)
      next
        case False
        with ih k len1 show ?thesis
          by (auto simp: vs1_def split: option.splits)
      qed
    qed
  qed
qed

lemma parse_values_total:
  "\<forall>k. i \<le> k \<and> k < vc \<longrightarrow> k < length vds \<and> k < length vs \<Longrightarrow>
     \<exists>vs'. parse_values vds vc q i vs = Some vs'"
proof (induction vds vc q i vs rule: parse_values.induct)
  case (1 vds vcount q i vs)
  show ?case
  proof (cases "i < vcount")
    case False
    then show ?thesis by (simp add: parse_values.simps)
  next
    case True
    with "1.prems" have inb: "i < length vds \<and> i < length vs" by simp
    have "\<exists>vs'. parse_values vds vcount q (i + 1) (case q (vd_page (vds ! i)) (vd_usage (vds ! i)) of
                Some v \<Rightarrow> vs[i := v] | None \<Rightarrow> vs) = Some vs'"
      using "1.IH"[OF True inb] "1.prems" by (simp split: option.splits)
    with True inb show ?thesis by (subst parse_values.simps) simp
  qed
qed

lemma length_set_ones [simp]: "length (set_ones S bs) = length bs"
  by (simp add: set_ones_def)

lemma nth_set_ones [simp]:
  "k < length bs \<Longrightarrow> set_ones S bs ! k = (if k \<in> S then 1 else bs ! k)"
  by (simp add: set_ones_def)

lemma set_ones_empty: "set_ones {} bs = bs"
  by (rule nth_equalityI) simp_all

lemma set_ones_update: "k < length bs \<Longrightarrow> bs[k := 1] = set_ones {k} bs"
  by (rule nth_equalityI) (auto simp: nth_list_update)

lemma set_ones_twice: "set_ones T (set_ones S bs) = set_ones (S \<union> T) bs"
  by (rule nth_equalityI) auto

lemma mark_button_uniform:
  "mark_button ds bc up i bs = Some bs' \<Longrightarrow>
     \<exists>S. \<forall>cs. length cs = length bs \<longrightarrow> mark_button ds bc up i cs = Some (set_ones S cs)"
proof (induction ds bc up i bs rule: mark_button.induct)
  case (1 ds bcount up i bs)
  show ?case
  proof (cases "i < bcount")
    case False
    then have "\<forall>cs. length cs = length bs \<longrightarrow> mark_button ds bcount up i cs = Some (set_ones {} cs)"
      by (simp add: mark_button.simps set_ones_empty)
    then show ?thesis by blast
  next
    case True
    with "1.prems" have inb: "i < length ds"
      by (subst (asm) mark_button.simps) (simp split: if_splits)
    show ?thesis
    proof (cases "bd_page (ds ! i) = fst up \<and> bd_usage (ds ! i) = snd up")
      case hit: True
      with "1.prems" True inb have k: "bd_index (ds ! i) < length bs"
        by (subst (asm) mark_button.simps) (simp split: if_splits)
      have "\<forall>cs. length cs = length bs \<longrightarrow>
              mark_button ds bcount up i cs = Some (set_ones {bd_index (ds ! i)} cs)"
        using True inb hit k by (subst mark_button.simps) (simp add: set_ones_update)
      then show ?thesis by blast
    next
      case miss: False
      with "1.prems" True inb have "mark_button ds bcount up (i + 1) bs = Some bs'"
        by (subst (asm) mark_button.simps) (auto split: if_splits)
      from "1.IH"[OF True inb miss this] obtain S where
        S: "\<forall>cs. length cs = length bs \<longrightarrow> mark_button ds bcount up (i + 1) cs = Some (set_ones S cs)"
        by blast
      have "\<forall>cs. length cs = length bs \<longrightarrow> mark_button ds bcount up i cs = Some (set_ones S cs)"
        using True inb miss S by (subst mark_button.simps) auto
      then show ?thesis by blast
    qed
  qed
qed

lemma mark_buttons_uniform:
  "mark_buttons ds bc ups bs = Some bs' \<Longrightarrow>
     \<exists>S. \<forall>cs. length cs = length bs \<longrightarrow> mark_buttons ds bc ups cs = Some (set_ones S cs)"
proof (induction ups arbitrary: bs)
  case Nil
  have "\<forall>cs. length cs = length bs \<longrightarrow> mark_buttons ds bc [] cs = Some (set_ones {} cs)"
    by (simp add: set_ones_empty)
  then show ?case by blast
next
  case (Cons up ups)
  from Cons.prems obtain bs1 where
    b1: "mark_button ds bc up 0 bs = Some bs1" and b2: "mark_buttons ds bc ups bs1 = Some bs'"
    by (auto split: option.splits)
  from mark_button_uniform[OF b1] obtain S1 where
    S1: "\<forall>cs. length cs = length bs \<longrightarrow> mark_button ds bc up 0 cs = Some (set_ones S1 cs)"
    by blast
  then have "bs1 = set_ones S1 bs" using b1 by simp
  then have len: "length bs1 = length bs" by simp
  from Cons.IH[OF b2] obtain S2 where
    S2: "\<forall>cs. length cs = length bs1 \<longrightarrow> mark_buttons ds bc ups cs = Some (set_ones S2 cs)"
    by blast
  have "\<forall>cs. length cs = length bs \<longrightarrow>
          mark_buttons ds bc (up # ups) cs = Some (set_ones (S1 \<union> S2) cs)"
    using S1 S2 len by (simp add: set_ones_twice)
  then show ?case by blast
qed

lemma memset0_then_ones_idem:
  assumes "n \<le> length bs"
  shows "set_ones S (replicate n 0 @ drop n (set_ones S (replicate n 0 @ drop n bs))) =
         set_ones S (replicate n 0 @ drop n bs)"
  using assms by (intro nth_equalityI) (auto simp: nth_append)

lemma mark_button_total:
  "bc \<le> length ds \<Longrightarrow> list_all (\<lambda>b. bd_index b < length bs) (take bc ds) \<Longrightarrow>
     \<exists>bs'. mark_button ds bc up i bs = Some bs'"
proof (induction ds bc up i bs rule: mark_button.induct)
  case (1 ds bcount up i bs)
  show ?case
  proof (cases "i < bcount")
    case False
    then show ?thesis by (simp add: mark_button.simps)
  next
    case True
    with "1.prems" have inb: "i < length ds" by simp
    from "1.prems" True inb have k: "bd_index (ds ! i) < length bs"
      by (simp add: list_all_length)
    show ?thesis
    proof (cases "bd_page (ds ! i) = fst up \<and> bd_usage (ds ! i) = snd up")
      case True
      with \<open>i < bcount\<close> inb k show ?thesis by (subst mark_button.simps) simp
    next
      case False
      from "1.IH"[OF True inb False "1.prems"] True inb False show ?thesis
        by (subst mark_button.simps) auto
    qed
  qed
qed

lemma mark_buttons_total:
  "bc \<le> length ds \<Longrightarrow> list_all (\<lambda>b. bd_index b < length bs) (take bc ds) \<Longrightarrow>
     \<exists>bs'. mark_buttons ds bc ups bs = Some bs'"
proof (induction ups arbitrary: bs)
  case Nil
  show ?case by simp
next
  case (Cons up ups)
  from mark_button_total[OF Cons.prems] obtain bs1 where
    b1: "mark_button ds bc up 0 bs = Some bs1" by blast
  from mark_button_uniform[OF b1] have "length bs1 = length bs"
    using b1 by (metis length_set_ones option.inject)
  with Cons.IH[of bs1] Cons.prems b1 show ?case by simp
qed

lemma mark_button_found:
  "find (\<lambda>b. bd_page b = fst up \<and> bd_usage b = snd up) (drop i (take bc ds)) = Some b \<Longrightarrow>
   mark_button ds bc up i bs = Some bs' \<Longrightarrow>
     bd_index b < length bs \<and> bs' = bs[bd_index b := 1]"
proof (induction ds bc up i bs rule: mark_button.induct)
  case (1 ds bcount up i bs)
  from "1.prems"(1) have "drop i (take bcount ds) \<noteq> []" by auto
  then have ib: "i < bcount" and inb: "i < length ds" by auto
  then have unf: "drop i (take bcount ds) = ds ! i # drop (i + 1) (take bcount ds)"
    by (metis Cons_nth_drop_Suc Suc_eq_plus1 length_take min_less_iff_conj nth_take)
  show ?case
  proof (cases "bd_page (ds ! i) = fst up \<and> bd_usage (ds ! i) = snd up")
    case True
    with "1.prems"(1) unf have "b = ds ! i" by simp
    with "1.prems"(2) ib inb True show ?thesis
      by (subst (asm) mark_button.simps) (simp split: if_splits)
  next
    case False
    with "1.prems"(1) unf have f: "find (\<lambda>b. bd_page b = fst up \<and> bd_usage b = snd up)
            (drop (i + 1) (take bcount ds)) = Some b" by simp
    from "1.prems"(2) ib inb False have "mark_button ds bcount up (i + 1) bs = Some bs'"
      by (subst (asm) mark_button.simps) (auto split: if_splits)
    from "1.IH"[OF ib inb False f this] show ?thesis .
  qed
qed

lemma mark_button_keeps_one:
  "mark_button ds bc up i bs = Some bs' \<Longrightarrow> k < length bs \<Longrightarrow> bs ! k = 1 \<Longrightarrow> bs' ! k = 1"
proof -
  assume a: "mark_button ds bc up i bs = Some bs'" and k: "k < length bs" "bs ! k = 1"
  from mark_button_uniform[OF a] obtain S where "bs' = set_ones S bs"
    using a by (metis option.inject)
  with k show ?thesis by simp
qed

lemma mark_buttons_keeps_one:
  "mark_buttons ds bc ups bs = Some bs' \<Longrightarrow> k < length bs \<Longrightarrow> bs ! k = 1 \<Longrightarrow> bs' ! k = 1"
proof -
  assume a: "mark_buttons ds bc ups bs = Some bs'" and k: "k < length bs" "bs ! k = 1"
  from mark_buttons_uniform[OF a] obtain S where "bs' = set_ones S bs"
    using a by (metis option.inject)
  with k show ?thesis by simp
qed

lemma mark_buttons_found:
  "mark_buttons ds bc ups bs = Some bs' \<Longrightarrow> up \<in> set ups \<Longrightarrow>
   find (\<lambda>b. bd_page b = fst up \<and> bd_usage b = snd up) (take bc ds) = Some b \<Longrightarrow>
     bd_index b < length bs \<and> bs' ! bd_index b = 1"
proof (induction ups arbitrary: bs)
  case Nil
  then show ?case by simp
next
  case (Cons u ups)
  from Cons.prems(1) obtain bs1 where
    b1: "mark_button ds bc u 0 bs = Some bs1" and b2: "mark_buttons ds bc ups bs1 = Some bs'"
    by (auto split: option.splits)
  from mark_button_uniform[OF b1] have len: "length bs1 = length bs"
    using b1 by (metis length_set_ones option.inject)
  show ?case
  proof (cases "u = up")
    case True
    from mark_button_found[of up 0 bc ds b bs bs1] Cons.prems(3) b1 True
    have "bd_index b < length bs \<and> bs1 = bs[bd_index b := 1]" by simp
    then have "bd_index b < length bs1" "bs1 ! bd_index b = 1" using len by simp_all
    with mark_buttons_keeps_one[OF b2] len show ?thesis by simp
  next
    case False
    with Cons.prems(2) have "up \<in> set ups" by simp
    from Cons.IH[OF b2 this Cons.prems(3)] len show ?thesis by simp
  qed
qed

lemma parse_values_bounds:
  "parse_values vds vc q i vs = Some vs' \<Longrightarrow> i \<le> k \<Longrightarrow> k < vc \<Longrightarrow>
     k < length vds \<and> k < length vs"
proof (induction vds vc q i vs rule: parse_values.induct)
  case (1 vds vcount q i vs)
  from "1.prems" have lt: "i < vcount" by simp
  with "1.prems"(1) have inb: "i < length vds \<and> i < length vs"
    by (subst (asm) parse_values.simps) (simp split: if_splits)
  show ?case
  proof (cases "k = i")
    case True
    with inb show ?thesis by simp
  next
    case False
    with "1.prems" have ik: "i + 1 \<le> k" by simp
    from "1.prems"(1) lt inb
    have r: "parse_values vds vcount q (i + 1)
          (case q (vd_page (vds ! i)) (vd_usage (vds ! i)) of Some v \<Rightarrow> vs[i := v] | None \<Rightarrow> vs)
        = Some vs'"
      by (subst (asm) parse_values.simps) simp
    from "1.IH"[OF lt inb r ik "1.prems"(3)] show ?thesis
      by (simp split: option.splits)
  qed
qed

lemma parse_values_idem:
  assumes "parse_values vds vc q 0 vs = Some vs'"
  shows "parse_values vds vc q 0 vs' = Some vs'"
proof -
  from parse_values_nth[OF assms] have len: "length vs' = length vs"
    and nth: "\<And>k. k < length vs \<Longrightarrow> vs' ! k =
        (if k < vc
         then (case q (vd_page (vds ! k)) (vd_usage (vds ! k)) of Some v \<Rightarrow> v | None \<Rightarrow> vs ! k)
         else vs ! k)"
    by simp_all
  have "\<forall>k. 0 \<le> k \<and> k < vc \<longrightarrow> k < length vds \<and> k < length vs'"
    using parse_values_bounds[OF assms] len by simp
  from parse_values_total[OF this] obtain vs'' where
    second: "parse_values vds vc q 0 vs' = Some vs''" by blast
  from parse_values_nth[OF second] have len2: "length vs'' = length vs'"
    and nth2: "\<And>k. k < length vs' \<Longrightarrow> vs'' ! k =
        (if k < vc
         then (case q (vd_page (vds ! k)) (vd_usage (vds ! k)) of Some v \<Rightarrow> v | None \<Rightarrow> vs' ! k)
         else vs' ! k)"
    by simp_all
  have "vs'' = vs'"
  proof (rule nth_equalityI)
    show "length vs'' = length vs'" by (rule len2)
  next
    fix k assume "k < length vs''"
    then have k: "k < length vs'" "k < length vs" using len len2 by simp_all
    show "vs'' ! k = vs' ! k"
      using nth2[OF k(1)] nth[OF k(2)] by (simp split: option.splits)
  qed
  with second show ?thesis by simp
qed

lemma mark_buttons_idem:
  assumes "n \<le> length bs" and "mark_buttons ds n ups (replicate n 0 @ drop n bs) = Some bs'"
  shows "length bs' = length bs \<and>
         mark_buttons ds n ups (replicate n 0 @ drop n bs') = Some bs'"
proof -
  from mark_buttons_uniform[OF assms(2)] obtain S where
    S: "\<forall>cs. length cs = length (replicate n (0::u8) @ drop n bs) \<longrightarrow>
              mark_buttons ds n ups cs = Some (set_ones S cs)"
    by blast
  have l0: "length (replicate n (0::u8) @ drop n bs) = length bs" using assms(1) by simp
  from S assms(2) have bs': "bs' = set_ones S (replicate n 0 @ drop n bs)" by simp
  then have len: "length bs' = length bs" using l0 by simp
  have "length (replicate n (0::u8) @ drop n bs') = length bs" using len assms(1) by simp
  with S l0 have "mark_buttons ds n ups (replicate n 0 @ drop n bs') =
                  Some (set_ones S (replicate n 0 @ drop n bs'))" by simp
  also have "set_ones S (replicate n 0 @ drop n bs') = bs'"
    unfolding bs' by (rule memset0_then_ones_idem[OF assms(1)])
  finally show ?thesis using len by simp
qed

lemma parse_report_total:
  "decodable device \<Longrightarrow> \<exists>st d2. parse_report device usages q = Some (st, d2)"
proof (cases usages)
  case None
  then show ?thesis by (simp add: parse_report_def)
next
  case (Some ups)
  assume d: "decodable device"
  let ?z = "replicate (button_count device) (0::u8) @ drop (button_count device) (buttons device)"
  from d have m: "memset0 (buttons device) (button_count device) = Some ?z"
    by (simp add: decodable_def memset0_def)
  from d have "length ?z = length (buttons device)" by (simp add: decodable_def)
  with d have "list_all (\<lambda>b. bd_index b < length ?z)
                 (take (button_count device) (button_descriptors device))"
    by (simp add: decodable_def)
  with d mark_buttons_total[of "button_count device" "button_descriptors device" ?z ups]
  obtain bs where bs: "mark_buttons (button_descriptors device) (button_count device) ups ?z = Some bs"
    by (auto simp: decodable_def)
  from d have "\<forall>k. 0 \<le> k \<and> k < value_count device \<longrightarrow>
                 k < length (value_descriptors device) \<and> k < length (values' device)"
    by (simp add: decodable_def)
  from parse_values_total[OF this] obtain vs where
    vs: "parse_values (value_descriptors device) (value_count device) q 0 (values' device) = Some vs"
    by blast
  from Some m bs vs show ?thesis by (simp add: parse_report_def)
qed

lemma parse_report_Some_cases:
  assumes "parse_report device (Some ups) q = Some (st, d2)"
  obtains bs vs where
    "button_count device \<le> length (buttons device)"
    "mark_buttons (button_descriptors device) (button_count device) ups
       (replicate (button_count device) 0 @ drop (button_count device) (buttons device)) = Some bs"
    "parse_values (value_descriptors device) (value_count device) q 0 (values' device) = Some vs"
    "st = 0" "d2 = device\<lparr>buttons := bs, values' := vs\<rparr>"
  using assms
  by (auto simp: parse_report_def memset0_def split: option.splits if_splits)

lemma parse_report_idem:
  assumes "parse_report device usages q = Some (st, d2)"
  shows "parse_report d2 usages q = Some (st, d2)"
proof (cases usages)
  case None
  with assms show ?thesis by (simp add: parse_report_def)
next
  case (Some ups)
  from assms[unfolded Some] obtain bs vs where
    n: "button_count device \<le> length (buttons device)" and
    bs: "mark_buttons (button_descriptors device) (button_count device) ups
       (replicate (button_count device) 0 @ drop (button_count device) (buttons device)) = Some bs" and
    vs: "parse_values (value_descriptors device) (value_count device) q 0 (values' device) = Some vs" and
    st: "st = 0" and d2: "d2 = device\<lparr>buttons := bs, values' := vs\<rparr>"
    by (rule parse_report_Some_cases)
  from mark_buttons_idem[OF n bs] have len: "length bs = length (buttons device)"
    and again: "mark_buttons (button_descriptors device) (button_count device) ups
                  (replicate (button_count device) 0 @ drop (button_count device) bs) = Some bs"
    by simp_all
  from parse_values_idem[OF vs]
  have vagain: "parse_values (value_descriptors device) (value_count device) q 0 vs = Some vs" .
  show ?thesis
    using Some n len again vagain st d2 by (simp add: parse_report_def memset0_def)
qed

lemma decodable_after_poll:
  "rhid_read_report device rid ob rf = Some (st, d1, calls) \<Longrightarrow> decodable device \<Longrightarrow> decodable d1"
  by (drule read_report_frame) (simp add: decodable_def)

section \<open>The report poller\<close>

text \<open>
  C3, as amended. On a device with no read in flight, \<open>rhid_read_report\<close> writes the report
  id into the first byte of the report buffer and issues exactly one \<open>ReadFile\<close> of
  \<open>report_size\<close> bytes. When the read starts (it completes at once or is queued) the
  device goes to the read-pending state and the call returns 1, "report available"; when
  the read cannot be started the device stays idle and the call returns 0. A second poll
  of the pending device whose read has not completed returns 0 and issues no read: the two
  polls return 1 and then 0, with one underlying read.
\<close>

theorem poll_from_idle:
  assumes "\<not> is_reading device" and "report device \<noteq> []"
  shows "rhid_read_report device report_id ob rf =
           (if rf = ReadFailed
            then Some (0, device\<lparr>report := (report device)[0 := report_id]\<rparr>,
                       [ReadFile (report_size device)])
            else Some (1, device\<lparr>report := (report device)[0 := report_id], is_reading := True\<rparr>,
                       [ReadFile (report_size device)])) \<and>
         (ob2 < report_size device \<longrightarrow>
            rhid_read_report
              (device\<lparr>report := (report device)[0 := report_id], is_reading := True\<rparr>)
              report_id2 ob2 rf2 =
            Some (0, device\<lparr>report := (report device)[0 := report_id], is_reading := True\<rparr>,
                  [GetOverlappedResult]))"
  using assms by (simp add: rhid_read_report_def Let_def)

theorem poll_from_idle_witness:
  "\<not> is_reading example_device \<and> report example_device \<noteq> [] \<and>
   rhid_read_report example_device 5 0 ReadQueued = Some (1, polled_device, [ReadFile 3]) \<and>
   rhid_read_report polled_device 6 2 ReadQueued = Some (0, polled_device, [GetOverlappedResult])"
proof -
  have h1: "\<not> is_reading example_device"
    by (simp add: example_device_def zero_device_def)
  have h2: "report example_device \<noteq> []"
    by (simp add: example_device_def)
  have e: "example_device\<lparr>report := (report example_device)[0 := 5], is_reading := True\<rparr> =
           polled_device" "report_size example_device = 3"
    by (simp_all add: polled_device_def example_device_def)
  from poll_from_idle[OF h1 h2, of 5 0 ReadQueued 2 6 ReadQueued] h1 h2 show ?thesis
    by (simp add: e)
qed

text \<open>
  C3 as stated fails: the first poll of an idle device whose read is queued returns 1, not
  "no fresh report yet".
\<close>

theorem poll_idle_returns_available:
  "rhid_read_report example_device 5 0 ReadQueued = Some (1, polled_device, [ReadFile 3])"
  by code_simp

section \<open>The report decoder\<close>

text \<open>
  C5, as amended. In a cycle with a fresh report, the value phase runs when the
  active-usage query succeeds: the call returns 0 and every slot below \<open>value_count\<close>
  holds its descriptor's decoded value, or its previous value when the query for that
  descriptor fails; the other slots are unchanged. On a decodable device the call does
  return. When the active-usage query fails the call returns -1 at once and the value
  slots keep their previous contents.
\<close>

theorem value_phase:
  assumes "handle device \<noteq> None" and "is_open device"
    and "rhid_read_report device report_id ob rf = Some (1, d1, calls)"
  shows "rhid_report device report_id ob rf None q = Some (- 1, d1, calls) \<and>
         values' d1 = values' device \<and>
         (decodable device \<longrightarrow>
            (\<exists>d2. rhid_report device report_id ob rf (Some ups) q = Some (0, d2, calls))) \<and>
         (\<forall>st d2 c. rhid_report device report_id ob rf (Some ups) q = Some (st, d2, c) \<longrightarrow>
            st = 0 \<and> length (values' d2) = length (values' device) \<and>
            (\<forall>i<length (values' device). values' d2 ! i =
               (if i < value_count device
                then (case q (vd_page (value_descriptors device ! i))
                              (vd_usage (value_descriptors device ! i)) of
                        Some v \<Rightarrow> v | None \<Rightarrow> values' device ! i)
                else values' device ! i)))"
proof (intro conjI allI impI)
  note fr = read_report_frame[OF assms(3)]
  show "rhid_report device report_id ob rf None q = Some (- 1, d1, calls)"
    using assms by (auto simp: rhid_report_def parse_report_def)
  show "values' d1 = values' device" using fr by simp
  {
    assume "decodable device"
    then have "decodable d1" using assms(3) by (rule decodable_after_poll[rotated])
    from parse_report_total[OF this, of "Some ups" q] obtain st d2 where
      p: "parse_report d1 (Some ups) q = Some (st, d2)" by blast
    then have "st = 0" by (rule parse_report_Some_cases)
    with p assms show "\<exists>d2. rhid_report device report_id ob rf (Some ups) q = Some (0, d2, calls)"
      by (auto simp: rhid_report_def)
  }
  fix st d2 c
  assume r: "rhid_report device report_id ob rf (Some ups) q = Some (st, d2, c)"
  with assms have p: "parse_report d1 (Some ups) q = Some (st, d2)"
    by (auto simp: rhid_report_def split: option.splits)
  from p obtain bs vs where
    vs: "parse_values (value_descriptors d1) (value_count d1) q 0 (values' d1) = Some vs" and
    st: "st = 0" and d2: "d2 = d1\<lparr>buttons := bs, values' := vs\<rparr>"
    by (rule parse_report_Some_cases)
  show "st = 0" by (rule st)
  from fr have v1: "values' d1 = values' device"
    "value_descriptors d1 = value_descriptors device" "value_count d1 = value_count device"
    by simp_all
  note nth = parse_values_nth[OF vs, unfolded v1]
  from d2 have v2: "values' d2 = vs" by simp
  from nth show "length (values' d2) = length (values' device)" unfolding v2 by simp
  fix i assume "i < length (values' device)"
  with nth show "values' d2 ! i =
               (if i < value_count device
                then (case q (vd_page (value_descriptors device ! i))
                              (vd_usage (value_descriptors device ! i)) of
                        Some v \<Rightarrow> v | None \<Rightarrow> values' device ! i)
                else values' device ! i)"
    unfolding v2 by simp
qed

theorem value_phase_witness:
  "handle example_device \<noteq> None \<and> is_open example_device \<and>
   rhid_read_report example_device 5 0 ReadQueued = Some (1, polled_device, [ReadFile 3]) \<and>
   rhid_report example_device 5 0 ReadQueued (Some [(9, 2), (9, 4)]) query_127 =
     Some (0, decoded_device, [ReadFile 3]) \<and>
   values' decoded_device = [127] \<and>
   rhid_report example_device 5 0 ReadQueued None query_127 = Some (- 1, polled_device, [ReadFile 3])"
proof -
  have h1: "handle example_device \<noteq> None" by code_simp
  have h2: "is_open example_device" by code_simp
  have h3: "rhid_read_report example_device 5 0 ReadQueued = Some (1, polled_device, [ReadFile 3])"
    by code_simp
  have e1: "rhid_report example_device 5 0 ReadQueued (Some [(9, 2), (9, 4)]) query_127 =
     Some (0, decoded_device, [ReadFile 3])" by code_simp
  have e2: "values' decoded_device = [127]" by code_simp
  from value_phase[OF h1 h2 h3, of query_127 "[(9, 2), (9, 4)]"] h1 h2 h3 e1 e2
  show ?thesis by simp
qed

text \<open>
  C5 as stated fails: with a fresh report and a failing active-usage query, the value
  query for usage 0x30 of page 1 would answer 127, but the call returns -1 and the value
  slot still holds 0.
\<close>

theorem usage_failure_skips_value_phase:
  "rhid_report example_device 5 0 ReadQueued None query_127 =
     Some (- 1, polled_device, [ReadFile 3]) \<and>
   values' polled_device = [0] \<and>
   query_127 (vd_page (value_descriptors polled_device ! 0))
             (vd_usage (value_descriptors polled_device ! 0)) = Some 127"
  by code_simp

text \<open>
  C6. When a fresh report is available and the active-usage query fails, \<open>rhid_report\<close>
  returns -1 and the button array is the one from before the cycle: every slot keeps its
  value, so a slot that was 1 after the previous cycle is still 1.
\<close>

theorem usage_failure_keeps_buttons:
  assumes "handle device \<noteq> None" and "is_open device"
    and "rhid_read_report device report_id ob rf = Some (1, d1, calls)"
  shows "rhid_report device report_id ob rf None q = Some (- 1, d1, calls) \<and>
         buttons d1 = buttons device \<and>
         (\<forall>k. buttons device ! k = 1 \<longrightarrow> buttons d1 ! k = 1)"
  using assms read_report_frame[OF assms(3)]
  by (auto simp: rhid_report_def parse_report_def)

theorem usage_failure_keeps_buttons_witness:
  "rhid_report example_device 5 0 ReadQueued (Some [(9, 2), (9, 4)]) query_127 =
     Some (0, decoded_device, [ReadFile 3]) \<and>
   buttons decoded_device = [0, 1, 0, 1] \<and>
   handle decoded_device \<noteq> None \<and> is_open decoded_device \<and>
   rhid_read_report decoded_device 5 3 ReadQueued =
     Some (1, decoded_device, [GetOverlappedResult, ReadFile 3]) \<and>
   rhid_report decoded_device 5 3 ReadQueued None query_127 =
     Some (- 1, decoded_device, [GetOverlappedResult, ReadFile 3])"
proof -
  have c0: "rhid_report example_device 5 0 ReadQueued (Some [(9, 2), (9, 4)]) query_127 =
     Some (0, decoded_device, [ReadFile 3])" by code_simp
  have b: "buttons decoded_device = [0, 1, 0, 1]" by code_simp
  have h1: "handle decoded_device \<noteq> None" by code_simp
  have h2: "is_open decoded_device" by code_simp
  have h3: "rhid_read_report decoded_device 5 3 ReadQueued =
     Some (1, decoded_device, [GetOverlappedResult, ReadFile 3])" by code_simp
  from usage_failure_keeps_buttons[OF h1 h2 h3, of query_127] c0 b h1 h2 h3
  show ?thesis by simp
qed

text \<open>
  C7. Decoding is idempotent: when the decode of a report returns, decoding the same
  report again with the same driver answers returns the same status and leaves the device,
  its button and value arrays included, exactly as the first run left it. Every active
  (page, usage) pair that the descriptor scan finds has its slot at 1, however many active
  pairs map to that slot. On a decodable device the decode does return.
\<close>

theorem decode_idempotent:
  "(decodable device \<longrightarrow> (\<exists>st d2. parse_report device usages q = Some (st, d2))) \<and>
   (parse_report device usages q = Some (st, d2) \<longrightarrow>
      parse_report d2 usages q = Some (st, d2) \<and>
      (\<forall>ups up b. usages = Some ups \<and> up \<in> set ups \<and>
           find (\<lambda>b. bd_page b = fst up \<and> bd_usage b = snd up)
                (take (button_count device) (button_descriptors device)) = Some b
         \<longrightarrow> bd_index b < length (buttons d2) \<and> buttons d2 ! bd_index b = 1))"
proof (intro conjI allI impI)
  assume "decodable device"
  then show "\<exists>st d2. parse_report device usages q = Some (st, d2)"
    by (rule parse_report_total)
next
  assume "parse_report device usages q = Some (st, d2)"
  then show "parse_report d2 usages q = Some (st, d2)" by (rule parse_report_idem)
next
  fix ups up b
  assume p: "parse_report device usages q = Some (st, d2)"
    and a: "usages = Some ups \<and> up \<in> set ups \<and>
           find (\<lambda>b. bd_page b = fst up \<and> bd_usage b = snd up)
                (take (button_count device) (button_descriptors device)) = Some b"
  from a have u: "usages = Some ups" and mem: "up \<in> set ups" and
    f: "find (\<lambda>b. bd_page b = fst up \<and> bd_usage b = snd up)
          (take (button_count device) (button_descriptors device)) = Some b"
    by simp_all
  from p[unfolded u] obtain bs vs where
    n: "button_count device \<le> length (buttons device)" and
    bs: "mark_buttons (button_descriptors device) (button_count device) ups
       (replicate (button_count device) 0 @ drop (button_count device) (buttons device)) = Some bs" and
    d2: "d2 = device\<lparr>buttons := bs, values' := vs\<rparr>"
    by (rule parse_report_Some_cases)
  from d2 have b2: "buttons d2 = bs" by simp
  from mark_buttons_idem[OF n bs] have len: "length bs = length (buttons device)" by simp
  from mark_buttons_found[OF bs mem f] n
  have "bd_index b < length (buttons device) \<and> bs ! bd_index b = 1" by simp
  with len show "bd_index b < length (buttons d2)" "buttons d2 ! bd_index b = 1"
    unfolding b2 by simp_all
qed

theorem decode_idempotent_witness:
  "decodable polled_device \<and>
   parse_report polled_device (Some [(9, 2), (9, 4), (9, 2)]) query_127 = Some (0, decoded_device) \<and>
   parse_report decoded_device (Some [(9, 2), (9, 4), (9, 2)]) query_127 = Some (0, decoded_device) \<and>
   find (\<lambda>b. bd_page b = 9 \<and> bd_usage b = 2)
     (take (button_count polled_device) (button_descriptors polled_device)) =
     Some \<lparr>bd_report_id = 0, bd_page = 9, bd_usage = 2, bd_index = 1\<rparr> \<and>
   buttons decoded_device ! 1 = 1"
proof -
  have h1: "decodable polled_device" by code_simp
  have h2: "parse_report polled_device (Some [(9, 2), (9, 4), (9, 2)]) query_127 =
              Some (0, decoded_device)" by code_simp
  have h3: "find (\<lambda>b. bd_page b = fst (9, 2) \<and> bd_usage b = snd (9, 2))
     (take (button_count polled_device) (button_descriptors polled_device)) =
     Some \<lparr>bd_report_id = 0, bd_page = 9, bd_usage = 2, bd_index = 1\<rparr>" by code_simp
  note th = decode_idempotent[of polled_device "Some [(9, 2), (9, 4), (9, 2)]" query_127 0
              decoded_device]
  from th h2 have idem:
    "parse_report decoded_device (Some [(9, 2), (9, 4), (9, 2)]) query_127 = Some (0, decoded_device)"
    by blast
  from th h2 have slots:
    "\<forall>ups up b. Some [(9, 2), (9, 4), (9, 2)] = Some ups \<and> up \<in> set ups \<and>
           find (\<lambda>b. bd_page b = fst up \<and> bd_usage b = snd up)
                (take (button_count polled_device) (button_descriptors polled_device)) = Some b
         \<longrightarrow> bd_index b < length (buttons decoded_device) \<and>
             buttons decoded_device ! bd_index b = 1"
    by blast
  from slots[rule_format, of "[(9, 2), (9, 4), (9, 2)]" "(9, 2)"
         "\<lparr>bd_report_id = 0, bd_page = 9, bd_usage = 2, bd_index = 1\<rparr>"] h3
  have one: "buttons decoded_device ! 1 = 1" by simp
  from h1 h2 idem h3 one show ?thesis by simp
qed

section \<open>The selection helper\<close>

text \<open>
  C4 fails on the code: the overflow test of \<open>rhid_select_devices\<close> is
  \<^verbatim>\<open>select_index > selected_count\<close>. With capacity 1 and two matching devices the call
  stores a second pointer at index 1 and returns 0; when the array really has one entry,
  that store is outside it.
\<close>

theorem select_devices_overruns_capacity:
  "rhid_select_devices [example_device, example_device] 2 [None, None] 1 select_all =
     Some (0, [Some 0, Some 1]) \<and>
   rhid_select_devices [example_device, example_device] 2 [None] 1 select_all = None"
  by code_simp

section \<open>Reading the state arrays\<close>

text \<open>
  C10. \<open>rhid_get_buttons_state\<close> returns -1 and leaves the caller's buffer as it was when
  \<open>size\<close> is less than \<open>button_count\<close>; otherwise, the buffer holding \<open>size\<close> entries and
  the device \<open>button_count\<close> button bytes, it copies exactly the first \<open>button_count\<close>
  bytes, leaves the rest of the buffer as it was, and returns 0.
  \<open>rhid_get_values_state\<close> does the same with \<open>value_count\<close> 32-bit words.
\<close>

theorem get_state_contract:
  "(size' < int (button_count device) \<longrightarrow>
      rhid_get_buttons_state device out size' = Some (- 1, out)) \<and>
   (\<not> size' < int (button_count device) \<and> size' \<le> int (length out) \<and>
      button_count device \<le> length (buttons device) \<longrightarrow>
        rhid_get_buttons_state device out size' =
          Some (0, take (button_count device) (buttons device) @ drop (button_count device) out)) \<and>
   (size' < int (value_count device) \<longrightarrow>
      rhid_get_values_state device vout size' = Some (- 1, vout)) \<and>
   (\<not> size' < int (value_count device) \<and> size' \<le> int (length vout) \<and>
      value_count device \<le> length (values' device) \<longrightarrow>
        rhid_get_values_state device vout size' =
          Some (0, take (value_count device) (values' device) @ drop (value_count device) vout))"
  by (auto simp: rhid_get_buttons_state_def rhid_get_values_state_def memcpy_def)

theorem get_state_contract_witness:
  "rhid_get_buttons_state decoded_device [9, 9, 9] 3 = Some (- 1, [9, 9, 9]) \<and>
   rhid_get_buttons_state decoded_device [9, 9, 9, 9, 9] 5 = Some (0, [0, 1, 0, 1, 9]) \<and>
   rhid_get_values_state decoded_device [] 0 = Some (- 1, []) \<and>
   rhid_get_values_state decoded_device [5, 5, 5] 3 = Some (0, [127, 5, 5])"
proof -
  have f: "button_count decoded_device = 4" "value_count decoded_device = 1"
    "buttons decoded_device = [0, 1, 0, 1]" "values' decoded_device = [127]"
    by (simp_all add: decoded_device_def polled_device_def example_device_def)
  from get_state_contract[of 3 decoded_device "[9, 9, 9]" "[5, 5, 5]"]
       get_state_contract[of 5 decoded_device "[9, 9, 9, 9, 9]" "[]"]
       get_state_contract[of 0 decoded_device "[]" "[]"]
  show ?thesis by (simp add: f)
qed

section \<open>Lemmas about the enumeration\<close>











lemma button_caps_stage_cache:
  "button_caps_stage L f dc h st d = Some (go, st', d') \<Longrightarrow>
     button_caps_count st' = max (button_caps_count st) (NumberInputButtonCaps dc) \<and>
     button_caps st' =
       (if button_caps_count st < NumberInputButtonCaps dc
        then Some (NumberInputButtonCaps dc) else button_caps st) \<and>
     value_caps_count st' = value_caps_count st \<and> value_caps st' = value_caps st \<and>
     (go \<longleftrightarrow> \<not> rejected_for_buttons L f dc)"
  by (auto simp: button_caps_stage_def Let_def grow_button_caps_def CloseHandle_def
                 rejected_for_buttons_def
           split: if_splits option.splits)

lemma value_caps_stage_cache:
  "value_caps_stage L f dc h st d = Some (go, st', d') \<Longrightarrow>
     value_caps_count st' = max (value_caps_count st) (NumberInputValueCaps dc) \<and>
     value_caps st' =
       (if value_caps_count st < NumberInputValueCaps dc
        then Some (NumberInputValueCaps dc) else value_caps st) \<and>
     button_caps_count st' = button_caps_count st \<and> button_caps st' = button_caps st"
  by (auto simp: value_caps_stage_def Let_def grow_value_caps_def CloseHandle_def
           split: if_splits option.splits)

lemma CloseHandle_cache [simp]:
  "button_caps_count (CloseHandle h st) = button_caps_count st"
  "button_caps (CloseHandle h st) = button_caps st"
  "value_caps_count (CloseHandle h st) = value_caps_count st"
  "value_caps (CloseHandle h st) = value_caps st"
  by (simp_all add: CloseHandle_def)

lemma probe_device_cache:
  assumes "probe_device L f h st d = Some (c, st', d')"
  shows "case (if os_preparsed_ok f then os_caps f else None) of
           None \<Rightarrow>
             button_caps_count st' = button_caps_count st \<and> button_caps st' = button_caps st \<and>
             value_caps_count st' = value_caps_count st \<and> value_caps st' = value_caps st
         | Some dc \<Rightarrow>
             button_caps_count st' = max (button_caps_count st) (NumberInputButtonCaps dc) \<and>
             button_caps st' =
               (if button_caps_count st < NumberInputButtonCaps dc
                then Some (NumberInputButtonCaps dc) else button_caps st) \<and>
             value_caps_count st' =
               (if rejected_for_buttons L f dc then value_caps_count st
                else max (value_caps_count st) (NumberInputValueCaps dc)) \<and>
             value_caps st' =
               (if \<not> rejected_for_buttons L f dc \<and> value_caps_count st < NumberInputValueCaps dc
                then Some (NumberInputValueCaps dc) else value_caps st)"
proof -
  define d3 where "d3 = read_identity f d"
  note p = probe_device_def[of L f h st d, unfolded Let_def, folded d3_def]
  show ?thesis
  proof (cases "os_preparsed_ok f")
    case False
    with assms p show ?thesis by auto
  next
    case pre: True
    show ?thesis
    proof (cases "os_caps f")
      case None
      with assms p pre show ?thesis by auto
    next
      case (Some dc)
      with assms p pre obtain go st4 d4 where
        b: "button_caps_stage L f dc h st d3 = Some (go, st4, d4)"
        by (auto split: option.splits)
      note bc = button_caps_stage_cache[OF b]
      show ?thesis
      proof (cases go)
        case False
        with assms p pre Some b have "st' = st4" by simp
        with bc False pre Some show ?thesis by simp
      next
        case True
        with assms p pre Some b obtain go' st5 d5 where
          v: "value_caps_stage L f dc h st4 d4 = Some (go', st5, d5)"
          by (auto split: option.splits)
        note vc = value_caps_stage_cache[OF v]
        from assms p pre Some b True v have "st' = st5 \<or> st' = CloseHandle h st5"
          by (auto split: if_splits)
        with bc vc True pre Some show ?thesis by auto
      qed
    qed
  qed
qed

lemma enum_device_cache:
  assumes "enum_device L (Some f) st = Some (c, st', d)"
  shows "case caps_header f of
           None \<Rightarrow>
             button_caps_count st' = button_caps_count st \<and> button_caps st' = button_caps st \<and>
             value_caps_count st' = value_caps_count st \<and> value_caps st' = value_caps st
         | Some dc \<Rightarrow>
             button_caps_count st' = max (button_caps_count st) (NumberInputButtonCaps dc) \<and>
             button_caps st' =
               (if button_caps_count st < NumberInputButtonCaps dc
                then Some (NumberInputButtonCaps dc) else button_caps st) \<and>
             value_caps_count st' =
               (if rejected_for_buttons L f dc then value_caps_count st
                else max (value_caps_count st) (NumberInputValueCaps dc)) \<and>
             value_caps st' =
               (if \<not> rejected_for_buttons L f dc \<and> value_caps_count st < NumberInputValueCaps dc
                then Some (NumberInputValueCaps dc) else value_caps st)"
proof (cases "enum_level_ok f")
  case False
  with assms show ?thesis
    by (auto simp: enum_device_def enum_level_ok_def caps_header_def Let_def split: if_splits)
next
  case ok: True
  with assms obtain p where p: "copy_device_path (os_DevicePath f) = Some p"
    by (auto simp: enum_device_def enum_level_ok_def Let_def split: if_splits option.splits)
  show ?thesis
  proof (cases "case os_open_share_rw f of Some h \<Rightarrow> Some h | None \<Rightarrow> os_open_share_r f")
    case None
    then have closed: "os_open_share_rw f = None" "os_open_share_r f = None"
      by (auto split: option.splits)
    from assms ok p None have "st' = st"
      by (auto simp: enum_device_def enum_level_ok_def Let_def split: if_splits)
    with closed show ?thesis by (simp add: caps_header_def)
  next
    case h: (Some h)
    then have opened: "os_open_share_rw f \<noteq> None \<or> os_open_share_r f \<noteq> None"
      by (auto split: option.splits)
    from assms ok p h have
      "probe_device L f h (st\<lparr>open_handles := h # open_handles st\<rparr>)
         ((zero_device L)\<lparr>path := p, handle := Some h\<rparr>) = Some (c, st', d)"
      by (auto simp: enum_device_def enum_level_ok_def Let_def split: if_splits)
    note pc = probe_device_cache[OF this]
    have hdr: "caps_header f = (if os_preparsed_ok f then os_caps f else None)"
      using ok opened by (simp add: caps_header_def enum_level_ok_def)
    from pc show ?thesis unfolding hdr
      by (cases "os_preparsed_ok f"; cases "os_caps f"; simp)

  qed
qed

lemma enum_device_None_cache:
  "enum_device L None st = Some (c, st', d) \<Longrightarrow> st' = st"
  by (simp add: enum_device_def)

lemma enum_device_consistent:
  assumes "enum_device L ifc st = Some (c, st', d)" and "cache_consistent st"
  shows "cache_consistent st' \<and> button_caps_count st \<le> button_caps_count st' \<and>
         value_caps_count st \<le> value_caps_count st'"
proof (cases ifc)
  case None
  with assms show ?thesis by (auto dest: enum_device_None_cache)
next
  case (Some f)
  from enum_device_cache[OF assms(1)[unfolded Some]] assms(2) show ?thesis
    by (cases "caps_header f")
       (auto simp: cache_consistent_def buffer_size_def split: if_splits)
qed

lemma loop_cache:
  "get_devices_loop L os count i st devs = Some (r, st', devs') \<Longrightarrow> cache_consistent st \<Longrightarrow>
     cache_consistent st' \<and> button_caps_count st \<le> button_caps_count st' \<and>
     value_caps_count st \<le> value_caps_count st'"
proof (induction L os count i st devs rule: get_devices_loop.induct)
  case (1 L os count i st devices)
  show ?case
  proof (cases "int i < count")
    case False
    with "1.prems" show ?thesis by (auto simp: get_devices_loop.simps)
  next
    case lt: True
    with "1.prems" have inb: "i < length devices"
      by (subst (asm) get_devices_loop.simps) (simp split: if_splits)
    let ?ifc = "if i < length os then Some (os ! i) else None"
    from "1.prems" lt inb obtain c st1 d where
      e: "enum_device L ?ifc st = Some (c, st1, d)"
      by (subst (asm) get_devices_loop.simps) (auto split: option.splits)
    note one = enum_device_consistent[OF e "1.prems"(2)]
    show ?thesis
    proof (cases c)
      case (Return x)
      with "1.prems" lt inb e have "st' = st1"
        by (subst (asm) get_devices_loop.simps) simp
      with one show ?thesis by simp
    next
      case Break
      with "1.prems" lt inb e have "st' = st1"
        by (subst (asm) get_devices_loop.simps) simp
      with one show ?thesis by simp
    next
      case (Continue reason)
      with "1.prems" lt inb e have
        rec: "get_devices_loop L os count (i + 1) st1 (devices[i := d]) = Some (r, st', devs')"
        by (subst (asm) get_devices_loop.simps) simp
      from "1.IH"(1)[OF lt inb e refl refl Continue rec] one show ?thesis by simp
    next
      case Completed
      with "1.prems" lt inb e have
        rec: "get_devices_loop L os count (i + 1) st1 (devices[i := d]) = Some (r, st', devs')"
        by (subst (asm) get_devices_loop.simps) simp
      from "1.IH"(2)[OF lt inb e refl refl Completed rec] one show ?thesis by simp
    qed
  qed
qed











section \<open>The descriptor builder\<close>

text \<open>
  C1 fails on the code. For a ranged capability (report id 1, page 9, usages 1 to 2)
  followed by a single usage (report id 1, page 9, usage 5) the builder writes usage 1 at
  slot 0 and usage 2 at slot 1, the second without the report id; it then steps over slot
  2, which stays zero, and writes usage 5 at slot 3 with index 3, although two descriptors
  were emitted before it.
\<close>

theorem builder_leaves_gap_after_range:
  "build_button_descriptors
     [\<lparr>bc_UsagePage = 9, bc_ReportID = 1, bc_usage = Range 1 2\<rparr>,
      \<lparr>bc_UsagePage = 9, bc_ReportID = 1, bc_usage = NotRange 5\<rparr>]
     0 (replicate 5 zero_button_desc) =
   Some (4, [\<lparr>bd_report_id = 1, bd_page = 9, bd_usage = 1, bd_index = 0\<rparr>,
             \<lparr>bd_report_id = 0, bd_page = 9, bd_usage = 2, bd_index = 1\<rparr>,
             \<lparr>bd_report_id = 0, bd_page = 0, bd_usage = 0, bd_index = 0\<rparr>,
             \<lparr>bd_report_id = 1, bd_page = 9, bd_usage = 5, bd_index = 3\<rparr>,
             \<lparr>bd_report_id = 0, bd_page = 0, bd_usage = 0, bd_index = 0\<rparr>])"
  by code_simp


text \<open>
  C2 fails on the code. The guard compares the raw count \<^verbatim>\<open>NumberInputButtonCaps\<close> with
  \<^verbatim>\<open>RHID_MAX_BUTTON_CAPS\<close>. With a maximum of 2, a device with one ranged capability of
  four usages passes the guard: when the descriptor array has two entries the builder
  writes past its end, and when it has eight the device is enumerated with four
  descriptors. In neither case is the device rejected.
\<close>

theorem expanded_count_is_not_checked:
  "os_button_caps gamepad_interface =
     Some [\<lparr>bc_UsagePage = 9, bc_ReportID = 2, bc_usage = Range 1 4\<rparr>] \<and>
   RHID_MAX_BUTTON_CAPS small_limits = 2 \<and>
   enum_device small_limits (Some gamepad_interface) initial_state = None \<and>
   enum_device (small_limits\<lparr>button_descriptors_len := 8\<rparr>) (Some gamepad_interface)
     initial_state =
     Some (Completed, grown_state,
           gamepad_record\<lparr>value_descriptors :=
             [\<lparr>vd_report_id = 2, vd_page = 1, vd_usage = 0x30, vd_logical_min = 0,
               vd_logical_max = 255, vd_index = 0\<rparr>, zero_value_desc]\<rparr>)"
  by code_simp

section \<open>Failures scoped to one device\<close>




section \<open>The capability cache\<close>

text \<open>
  C9, as amended. From a consistent cache, every enumeration pass that returns leaves a
  consistent cache whose two buffers are at least as large as before: buffer sizes never
  shrink, over all devices of a pass, and so over all passes. For one device: when the
  capability header is not obtained, both buffers are untouched; when it is, the button
  buffer is regrown (to the device's raw button-capability count) exactly when that count
  exceeds the previous high-water mark, and the value buffer is regrown exactly when the
  device is not rejected at the button stage and its raw value-capability count exceeds
  the previous high-water mark.
\<close>

theorem cache_sizes_never_shrink:
  assumes "cache_consistent st"
  shows "(get_devices_loop L os count i st devs = Some (r, st', devs') \<longrightarrow>
            cache_consistent st' \<and>
            buffer_size (button_caps st) \<le> buffer_size (button_caps st') \<and>
            buffer_size (value_caps st) \<le> buffer_size (value_caps st')) \<and>
         (enum_device L (Some f) st = Some (c, st1, d) \<longrightarrow>
            cache_consistent st1 \<and>
            (case caps_header f of
               None \<Rightarrow> button_caps st1 = button_caps st \<and> value_caps st1 = value_caps st
             | Some dc \<Rightarrow>
                 button_caps st1 =
                   (if button_caps_count st < NumberInputButtonCaps dc
                    then Some (NumberInputButtonCaps dc) else button_caps st) \<and>
                 value_caps st1 =
                   (if \<not> rejected_for_buttons L f dc \<and>
                       value_caps_count st < NumberInputValueCaps dc
                    then Some (NumberInputValueCaps dc) else value_caps st)))"
proof (intro conjI impI)
  assume run: "get_devices_loop L os count i st devs = Some (r, st', devs')"
  from loop_cache[OF run assms] assms
  show "cache_consistent st'"
    "buffer_size (button_caps st) \<le> buffer_size (button_caps st')"
    "buffer_size (value_caps st) \<le> buffer_size (value_caps st')"
    by (simp_all add: cache_consistent_def)
next
  assume e: "enum_device L (Some f) st = Some (c, st1, d)"
  from enum_device_consistent[OF e assms] show "cache_consistent st1" by simp
  from enum_device_cache[OF e]
  show "case caps_header f of
               None \<Rightarrow> button_caps st1 = button_caps st \<and> value_caps st1 = value_caps st
             | Some dc \<Rightarrow>
                 button_caps st1 =
                   (if button_caps_count st < NumberInputButtonCaps dc
                    then Some (NumberInputButtonCaps dc) else button_caps st) \<and>
                 value_caps st1 =
                   (if \<not> rejected_for_buttons L f dc \<and>
                       value_caps_count st < NumberInputValueCaps dc
                    then Some (NumberInputValueCaps dc) else value_caps st)"
    by (simp split: option.splits)
qed

theorem cache_sizes_never_shrink_witness:
  "cache_consistent initial_state \<and>
   get_devices_loop example_limits [locked_interface, gamepad_interface] 3 0 initial_state
     [example_device, example_device, example_device] =
     Some (0, grown_state, [locked_record, gamepad_record, zero_device example_limits]) \<and>
   cache_consistent grown_state \<and>
   buffer_size (button_caps initial_state) = 0 \<and> buffer_size (button_caps grown_state) = 1 \<and>
   buffer_size (value_caps initial_state) = 0 \<and> buffer_size (value_caps grown_state) = 1 \<and>
   enum_device example_limits (Some gamepad_interface) initial_state =
     Some (Completed, grown_state, gamepad_record) \<and>
   caps_header gamepad_interface =
     Some \<lparr>caps_UsagePage = 1, caps_Usage = 5, InputReportByteLength = 3,
           NumberInputButtonCaps = 1, NumberInputValueCaps = 1\<rparr>"
proof -
  have h: "cache_consistent initial_state" by code_simp
  have r: "get_devices_loop example_limits [locked_interface, gamepad_interface] 3 0 initial_state
     [example_device, example_device, example_device] =
     Some (0, grown_state, [locked_record, gamepad_record, zero_device example_limits])"
    by code_simp
  have e: "enum_device example_limits (Some gamepad_interface) initial_state =
     Some (Completed, grown_state, gamepad_record)" by code_simp
  have c: "caps_header gamepad_interface =
     Some \<lparr>caps_UsagePage = 1, caps_Usage = 5, InputReportByteLength = 3,
           NumberInputButtonCaps = 1, NumberInputValueCaps = 1\<rparr>" by code_simp
  have s: "buffer_size (button_caps initial_state) = 0" "buffer_size (button_caps grown_state) = 1"
    "buffer_size (value_caps initial_state) = 0" "buffer_size (value_caps grown_state) = 1"
    by code_simp+
  from cache_sizes_never_shrink[OF h, of example_limits "[locked_interface, gamepad_interface]" 3 0
         "[example_device, example_device, example_device]" 0 grown_state
         "[locked_record, gamepad_record, zero_device example_limits]" gamepad_interface
         Completed grown_state gamepad_record] r e
  have "cache_consistent grown_state" by blast
  with h r e c s show ?thesis by simp
qed


text \<open>
  C9 as stated fails: a device rejected for its button-capability count (3, the maximum
  being 2) has a raw value-capability count of 1, above the value buffer's high-water mark
  of 0, and the value buffer is not regrown.
\<close>

theorem rejected_device_leaves_value_buffer:
  "enum_device small_limits (Some crowded_interface) initial_state =
     Some (Continue TooManyCapabilities,
           initial_state\<lparr>button_caps_count := 3, button_caps := Some 3\<rparr>,
           (zero_device small_limits)
             \<lparr>path := ''hid#pad'', vendor_id := 0x45E, product_id := 0x28E, version := 1,
              manufacturer_name := ''Acme'', product_name := ''Pad'', cap_button_count := 3\<rparr>) \<and>
   os_caps crowded_interface =
     Some \<lparr>caps_UsagePage = 1, caps_Usage = 5, InputReportByteLength = 3,
           NumberInputButtonCaps = 3, NumberInputValueCaps = 1\<rparr> \<and>
   value_caps_count initial_state = 0 \<and>
   value_caps (initial_state\<lparr>button_caps_count := 3, button_caps := Some 3\<rparr>) = None"
  by code_simp


end
